theory Spec2Isabelle
  imports Complex_Main "HOL-Library.Sublist"
begin

section \<open>Python strings\<close>

text \<open>
  A Python \<open>str\<close> is a sequence of code points. It is modelled as a \<open>string\<close> whose
  characters stand for the code points below 256; the forbidden file name characters,
  the separators of the ranges grammar, the decimal digits and the signs are all ASCII.
\<close>

text \<open>\<open>str.isspace\<close> on the code points below 256, the set that \<open>str.strip()\<close> removes.\<close>

definition is_space :: "char \<Rightarrow> bool" where
  "is_space c = (c \<in> set [CHR 0x09, CHR 0x0A, CHR 0x0B, CHR 0x0C, CHR 0x0D,
      CHR 0x1C, CHR 0x1D, CHR 0x1E, CHR 0x1F, CHR 0x20, CHR 0x85, CHR 0xA0])"

definition strip :: "string \<Rightarrow> string" where
  "strip s = rev (dropWhile is_space (rev (dropWhile is_space s)))"

text \<open>\<open>s.replace(old, new)\<close> for one-character \<open>old\<close> and \<open>new\<close>.\<close>

definition replace :: "char \<Rightarrow> char \<Rightarrow> string \<Rightarrow> string" where
  "replace old new s = map (\<lambda>c. if c = old then new else c) s"

text \<open>\<open>s.split(sep)\<close> for a one-character separator: never empty, \<open>''''.split(sep) = ['''']\<close>.\<close>

fun split_on :: "char \<Rightarrow> string \<Rightarrow> string list" where
  "split_on sep [] = [[]]"
| "split_on sep (c # cs) =
     (if c = sep then [] # split_on sep cs
      else (case split_on sep cs of
              w # ws \<Rightarrow> (c # w) # ws
            | [] \<Rightarrow> [[c]]))"

section \<open>sanitize_filename\<close>

text \<open>
  \<^verbatim>\<open>return "".join(c for c in name if c not in r'\\/:*?"<>|')\<close>

  The raw literal holds ten characters: the backslash twice, then \<open>/ : * ? " < > |\<close>.
\<close>

definition forbidden_chars :: string where
  "forbidden_chars = [CHR 0x5C, CHR 0x5C, CHR ''/'', CHR '':'', CHR ''*'', CHR ''?'',
     CHR 0x22, CHR ''<'', CHR ''>'', CHR ''|'']"

fun sanitize_filename :: "string \<Rightarrow> string" where
  "sanitize_filename [] = []"
| "sanitize_filename (c # name) =
     (if c \<notin> set forbidden_chars then c # sanitize_filename name
      else sanitize_filename name)"

text \<open>\<open>str(n)\<close> and the f-string rendering of an integer: its decimal numeral.\<close>

fun digits_of :: "nat \<Rightarrow> string" where
  "digits_of n =
     (if n < 10 then [char_of (48 + n)]
      else digits_of (n div 10) @ [char_of (48 + n mod 10)])"

definition str_int :: "int \<Rightarrow> string" where
  "str_int i = (if i < 0 then CHR ''-'' # digits_of (nat (- i)) else digits_of (nat i))"

text \<open>
  A render value is an integer of the sequence (Numbers mode) or the custom text
  (Text mode); \<open>str(val)\<close> renders either.
\<close>

datatype render_value = IntVal int | StrVal string

fun py_str :: "render_value \<Rightarrow> string" where
  "py_str (IntVal i) = str_int i"
| "py_str (StrVal s) = s"

text \<open>
  \<open>os.path.join(folder, name)\<close> on a POSIX system. A sanitized name holds no \<open>/\<close>, so it
  never restarts the path.
\<close>

definition path_join :: "string \<Rightarrow> string \<Rightarrow> string" where
  "path_join folder name =
     (if name \<noteq> [] \<and> hd name = CHR ''/'' then name
      else if folder = [] \<or> last folder = CHR ''/'' then folder @ name
      else folder @ ''/'' @ name)"

text \<open>\<open>self.base_name = base_name or "created"\<close>\<close>

definition base_or_created :: "string \<Rightarrow> string" where
  "base_or_created base_name = (if base_name = [] then ''created'' else base_name)"

text \<open>
  corel_text_pro.py:
  \<^verbatim>\<open>safe_val = sanitize_filename(str(val))
  on = f"{sanitize_filename(self.base_name)}_{safe_val}.{self.out_ext}"
  op = os.path.join(self.output_folder, sanitize_filename(on))\<close>
  corel.py composes \<open>on\<close> from the unsanitized \<open>val\<close>, an integer there.
\<close>

definition output_name_pro :: "string \<Rightarrow> render_value \<Rightarrow> string \<Rightarrow> string" where
  "output_name_pro base_name val out_ext =
     sanitize_filename (base_or_created base_name) @ ''_'' @ sanitize_filename (py_str val)
       @ ''.'' @ out_ext"

definition output_path_pro :: "string \<Rightarrow> string \<Rightarrow> render_value \<Rightarrow> string \<Rightarrow> string" where
  "output_path_pro output_folder base_name val out_ext =
     path_join output_folder (sanitize_filename (output_name_pro base_name val out_ext))"

definition output_name :: "string \<Rightarrow> int \<Rightarrow> string \<Rightarrow> string" where
  "output_name base_name val out_ext =
     sanitize_filename (base_or_created base_name) @ ''_'' @ str_int val @ ''.'' @ out_ext"

definition output_path :: "string \<Rightarrow> string \<Rightarrow> int \<Rightarrow> string \<Rightarrow> string" where
  "output_path output_folder base_name val out_ext =
     path_join output_folder (sanitize_filename (output_name base_name val out_ext))"

text \<open>The nine characters the specification lists.\<close>

definition listed_chars :: "char set" where
  "listed_chars = {CHR 0x5C, CHR ''/'', CHR '':'', CHR ''*'', CHR ''?'', CHR 0x22,
     CHR ''<'', CHR ''>'', CHR ''|''}"

section \<open>Integers from text, ranges\<close>

text \<open>Every failure of \<open>parse_ranges\<close> is a Python \<open>ValueError\<close>.\<close>

datatype error = ValueError

text \<open>
  \<open>int(s)\<close> in base 10: white space around the numeral is dropped, then an optional
  sign, then decimal digits, single underscores allowed between digits. On the code
  points below 256 \<open>int\<close> drops tab, line feed, vertical tab, form feed, carriage
  return, space, U+0085 and U+00A0 (not U+001C to U+001F, which \<open>str.strip\<close> drops).
  Anything else raises \<open>ValueError\<close>. (The interpreter's limit on the number of
  digits, a setting, is left out.)
\<close>

definition is_int_space :: "char \<Rightarrow> bool" where
  "is_int_space c = (c \<in> set [CHR 0x09, CHR 0x0A, CHR 0x0B, CHR 0x0C, CHR 0x0D,
      CHR 0x20, CHR 0x85, CHR 0xA0])"

definition is_digit :: "char \<Rightarrow> bool" where
  "is_digit c = (48 \<le> (of_char c :: nat) \<and> (of_char c :: nat) \<le> 57)"

definition digit_val :: "char \<Rightarrow> int" where
  "digit_val c = int (of_char c) - 48"

fun parse_digits :: "bool \<Rightarrow> int \<Rightarrow> string \<Rightarrow> int option" where
  "parse_digits prev_digit acc [] = (if prev_digit then Some acc else None)"
| "parse_digits prev_digit acc (c # cs) =
     (if is_digit c then parse_digits True (acc * 10 + digit_val c) cs
      else if c = CHR ''_'' \<and> prev_digit then parse_digits False acc cs
      else None)"

definition py_int :: "string \<Rightarrow> error + int" where
  "py_int s =
     (let t = rev (dropWhile is_int_space (rev (dropWhile is_int_space s)));
          (neg, body) = (case t of
                           [] \<Rightarrow> (False, [])
                         | c # cs \<Rightarrow> if c = CHR ''-'' then (True, cs)
                                     else if c = CHR ''+'' then (False, cs)
                                     else (False, t))
      in case parse_digits False 0 body of
           None \<Rightarrow> Inl ValueError
         | Some n \<Rightarrow> Inr (if neg then - n else n))"

text \<open>
  \<open>list(range(a, b, s))\<close>. The step is \<open>s\<close> or \<open>-s\<close> for an \<open>s\<close> that is
  \<open>max(1, ...)\<close> at every call, so the step 0, which \<open>range\<close> refuses, never occurs.
\<close>

function range_up :: "int \<Rightarrow> int \<Rightarrow> int \<Rightarrow> int list" where
  "range_up a b s = (if a < b \<and> 0 < s then a # range_up (a + s) b s else [])"
  by pat_completeness auto
termination
  by (relation "measure (\<lambda>(a, b, s). nat (b - a))") auto

function range_down :: "int \<Rightarrow> int \<Rightarrow> int \<Rightarrow> int list" where
  "range_down a b s = (if b < a \<and> 0 < s then a # range_down (a - s) b s else [])"
  by pat_completeness auto
termination
  by (relation "measure (\<lambda>(a, b, s). nat (a - b))") auto

definition py_range :: "int \<Rightarrow> int \<Rightarrow> int \<Rightarrow> int list" where
  "py_range a b s =
     (if 0 < s then range_up a b s else if s < 0 then range_down a b (- s) else [])"

text \<open>
  One token of \<open>parse_ranges\<close> (the body of its first loop), returning the values it
  appends to \<open>vals\<close>:
  \<^verbatim>\<open>if ":" in p or "x" in p:
      p=p.replace("x",":")
  if "-" in p:
      rng,st=(p.split(":")+["1"])[:2]
      a,b=rng.split("-")
      a=int(a.strip());b=int(b.strip());s=max(1,int(st.strip()))
      if a<=b:vals.extend(list(range(a,b+1,s)))
      else:vals.extend(list(range(a,b-1,-s)))
  else:
      try:vals.append(int(p))
      except:pass\<close>
  Only the last branch catches the exception.
\<close>

definition expand_token :: "string \<Rightarrow> error + int list" where
  "expand_token p0 =
     (let p = (if CHR '':'' \<in> set p0 \<or> CHR ''x'' \<in> set p0
               then replace (CHR ''x'') (CHR '':'') p0 else p0)
      in if CHR ''-'' \<in> set p then
           (case take 2 (split_on (CHR '':'') p @ [''1'']) of
              [rng, st] \<Rightarrow>
                (case split_on (CHR ''-'') rng of
                   [a, b] \<Rightarrow>
                     (case py_int (strip a) of
                        Inl e \<Rightarrow> Inl e
                      | Inr a \<Rightarrow>
                          (case py_int (strip b) of
                             Inl e \<Rightarrow> Inl e
                           | Inr b \<Rightarrow>
                               (case py_int (strip st) of
                                  Inl e \<Rightarrow> Inl e
                                | Inr s0 \<Rightarrow>
                                    (let s = max 1 s0
                                     in if a \<le> b then Inr (py_range a (b + 1) s)
                                        else Inr (py_range a (b - 1) (- s))))))
                 | _ \<Rightarrow> Inl ValueError)
            | _ \<Rightarrow> Inl ValueError)
         else (case py_int p of
                 Inr v \<Rightarrow> Inr [v]
               | Inl _ \<Rightarrow> Inr []))"

text \<open>The first loop: \<open>vals\<close> grows token by token, an exception ends the function.\<close>

fun expand_parts :: "string list \<Rightarrow> int list \<Rightarrow> error + int list" where
  "expand_parts [] vals = Inr vals"
| "expand_parts (p # parts) vals =
     (case expand_token p of
        Inl e \<Rightarrow> Inl e
      | Inr vs \<Rightarrow> expand_parts parts (vals @ vs))"

text \<open>
  The second loop:
  \<^verbatim>\<open>seen=set();out=[]
  for v in vals:
      if v not in seen:seen.add(v);out.append(v)\<close>
\<close>

fun dedup_loop :: "int list \<Rightarrow> int set \<Rightarrow> int list \<Rightarrow> int list" where
  "dedup_loop [] seen out = out"
| "dedup_loop (v # vals) seen out =
     (if v \<notin> seen then dedup_loop vals (insert v seen) (out @ [v])
      else dedup_loop vals seen out)"

text \<open>\<open>parts=[p.strip() for p in spec.replace(";",",").split(",") if p.strip()]\<close>\<close>

definition range_parts :: "string \<Rightarrow> string list" where
  "range_parts spec =
     map strip (filter (\<lambda>p. strip p \<noteq> [])
       (split_on (CHR '','') (replace (CHR '';'') (CHR '','') spec)))"

definition parse_ranges :: "string \<Rightarrow> error + int list" where
  "parse_ranges spec =
     (if strip spec = [] then Inr []
      else (case expand_parts (range_parts spec) [] of
              Inl e \<Rightarrow> Inl e
            | Inr vals \<Rightarrow> Inr (dedup_loop vals {} [])))"

text \<open>
  The values in the order in which each is first seen, written over the list alone:
  the reading of the specification's "de-duplicated preserving first-seen order".
\<close>

fun first_seen :: "int list \<Rightarrow> int list" where
  "first_seen [] = []"
| "first_seen (v # vals) = v # filter (\<lambda>u. u \<noteq> v) (first_seen vals)"

text \<open>The position at which a value first occurs in a list.\<close>

definition first_pos :: "int list \<Rightarrow> int \<Rightarrow> nat" where
  "first_pos vals v = length (takeWhile (\<lambda>u. u \<noteq> v) vals)"

section \<open>Simple mode\<close>

text \<open>
  \<^verbatim>\<open>self.step=max(1,int(step))
  if self.start_count<=self.end_count:count_values=list(range(self.start_count,self.end_count+1,self.step))
  else:count_values=list(range(self.start_count,self.end_count-1,-self.step))\<close>
\<close>

definition simple_sequence :: "int \<Rightarrow> int \<Rightarrow> int \<Rightarrow> int list" where
  "simple_sequence start_count end_count step0 =
     (let step = max 1 step0
      in if start_count \<le> end_count then py_range start_count (end_count + 1) step
         else py_range start_count (end_count - 1) (- step))"

section \<open>Text fit\<close>

text \<open>
  \<open>ImageFont.truetype\<close> gives a scalable \<open>FreeTypeFont\<close> of a point size;
  \<open>ImageFont.load_default()\<close> is the fallback font.
\<close>

datatype font = FreeTypeFont int | DefaultFont


text \<open>
  The shrink loop. \<open>load_font\<close> is \<open>self._load_font\<close>, \<open>bbox\<close> gives the width and
  height of \<open>draw.textbbox((0,0),text,font=font)\<close> for the text being drawn.
  \<^verbatim>\<open>while (t_w>avail_w or t_h>avail_h) and cur>6:
      cur-=2
      try:font=self._load_font(cur)
      except:font=ImageFont.load_default()
      bbox=draw.textbbox((0,0),text,font=font);t_w=bbox[2]-bbox[0];t_h=bbox[3]-bbox[1]\<close>
\<close>

function shrink_loop ::
  "(int \<Rightarrow> font) \<Rightarrow> (font \<Rightarrow> int \<times> int) \<Rightarrow> int \<Rightarrow> int \<Rightarrow>
     int \<times> font \<times> int \<times> int \<Rightarrow> int \<times> font \<times> int \<times> int" where
  "shrink_loop load_font bbox avail_w avail_h (cur, fnt, t_w, t_h) =
     (if (t_w > avail_w \<or> t_h > avail_h) \<and> cur > 6
      then shrink_loop load_font bbox avail_w avail_h
             (cur - 2, load_font (cur - 2), bbox (load_font (cur - 2)))
      else (cur, fnt, t_w, t_h))"
  by pat_completeness auto
termination
  by (relation "measure (\<lambda>(load_font, bbox, avail_w, avail_h, cur, fnt, t_w, t_h). nat cur)") auto


section \<open>Measurements\<close>

text \<open>
  A Python \<open>float\<close> is a double. A finite double is a real number, and an arithmetic
  operation on doubles gives the exact real result rounded to a double: \<open>fl\<close> is that
  rounding, a parameter of the model. The literal \<open>2.54\<close> denotes \<open>fl 2.54\<close>.
  \<^verbatim>\<open>def inches_from_unit(value:float,unit:str)->float:
      if unit=="inches":return value
      if unit=="cm":return value/2.54
      if unit=="mm":return value/25.4
      return value\<close>
\<close>

definition inches_from_unit :: "(real \<Rightarrow> real) \<Rightarrow> real \<Rightarrow> string \<Rightarrow> real" where
  "inches_from_unit fl v unit =
     (if unit = ''inches'' then v
      else if unit = ''cm'' then fl (v / fl 2.54)
      else if unit = ''mm'' then fl (v / fl 25.4)
      else v)"

text \<open>\<open>int(round(x))\<close>: the nearest integer, a tie going to the even one.\<close>

definition py_round :: "real \<Rightarrow> int" where
  "py_round x =
     (let f = \<lfloor>x\<rfloor>; d = x - of_int f
      in if d < 1 / 2 then f
         else if 1 / 2 < d then f + 1
         else if even f then f else f + 1)"

text \<open>
  \<^verbatim>\<open>self.dpi=max(1,int(dpi))
  w_in=inches_from_unit(self.width_val,self.unit)
  target_w=max(1,int(round(w_in*self.dpi)))\<close>
\<close>

definition target_pixels :: "(real \<Rightarrow> real) \<Rightarrow> real \<Rightarrow> string \<Rightarrow> int \<Rightarrow> int" where
  "target_pixels fl v unit dpi =
     max 1 (py_round (fl (inches_from_unit fl v unit * of_int (max 1 dpi))))"

text \<open>
  corel_text_pro.py, in \<open>run\<close> and again in \<open>update_preview\<close>:
  \<^verbatim>\<open># If the user requested auto-fit (width or height effectively zero) then
  # use the background's native pixel dimensions ...
  if target_w <= 1 or target_h <= 1:
      target_w = bg.width
      target_h = bg.height\<close>
\<close>

definition auto_fit :: "int \<times> int \<Rightarrow> int \<times> int \<Rightarrow> int \<times> int" where
  "auto_fit target bg_size =
     (case target of (target_w, target_h) \<Rightarrow>
        if target_w \<le> 1 \<or> target_h \<le> 1 then bg_size else (target_w, target_h))"

definition canvas_size ::
  "(real \<Rightarrow> real) \<Rightarrow> real \<Rightarrow> real \<Rightarrow> string \<Rightarrow> int \<Rightarrow> int \<times> int \<Rightarrow> int \<times> int" where
  "canvas_size fl width_val height_val unit dpi bg_size =
     auto_fit (target_pixels fl width_val unit dpi, target_pixels fl height_val unit dpi) bg_size"

section \<open>Background, cover mode\<close>

text \<open>
  An RGBA image: its size and the four bands of each pixel. The Pillow operations are
  modelled as the library documents them: \<open>Image.new\<close> fills with one colour,
  \<open>crop\<close> reads the box (transparent black outside the image), \<open>paste\<close> without a
  mask overwrites all four bands of the region, \<open>resize\<close> to the image's own size is a
  copy. The resampling filter is a parameter, \<open>resample\<close>.
\<close>

type_synonym rgba = "nat \<times> nat \<times> nat \<times> nat"

record image =
  width :: int
  height :: int
  getpixel :: "int \<Rightarrow> int \<Rightarrow> rgba"

definition alpha :: "rgba \<Rightarrow> nat" where
  "alpha p = (case p of (r, g, b, a) \<Rightarrow> a)"

definition image_new :: "int \<Rightarrow> int \<Rightarrow> rgba \<Rightarrow> image" where
  "image_new w h colour = \<lparr>width = w, height = h, getpixel = (\<lambda>x y. colour)\<rparr>"

definition resize ::
  "(image \<Rightarrow> int \<Rightarrow> int \<Rightarrow> int \<Rightarrow> int \<Rightarrow> rgba) \<Rightarrow> image \<Rightarrow> int \<times> int \<Rightarrow> image" where
  "resize resample img size' =
     (case size' of (w, h) \<Rightarrow>
        if (width img, height img) = (w, h) then img
        else \<lparr>width = w, height = h, getpixel = resample img w h\<rparr>)"

definition crop :: "image \<Rightarrow> int \<times> int \<times> int \<times> int \<Rightarrow> image" where
  "crop img box =
     (case box of (x0, y0, x1, y1) \<Rightarrow>
        \<lparr>width = x1 - x0, height = y1 - y0,
         getpixel = (\<lambda>x y.
           if 0 \<le> x + x0 \<and> x + x0 < width img \<and> 0 \<le> y + y0 \<and> y + y0 < height img
           then getpixel img (x + x0) (y + y0) else (0, 0, 0, 0))\<rparr>)"

definition paste :: "image \<Rightarrow> image \<Rightarrow> int \<times> int \<Rightarrow> image" where
  "paste canvas src pos =
     (case pos of (x0, y0) \<Rightarrow>
        canvas\<lparr>getpixel := (\<lambda>x y.
          if x0 \<le> x \<and> x < x0 + width src \<and> y0 \<le> y \<and> y < y0 + height src
          then getpixel src (x - x0) (y - y0) else getpixel canvas x y)\<rparr>)"

text \<open>
  \<^verbatim>\<open>bg_ratio=bg.width/bg.height;tgt_ratio=target_w/target_h
  if bg_ratio>tgt_ratio:scale_h=target_h;scale_w=int(round(bg.width*(scale_h/bg.height)))
  else:scale_w=target_w;scale_h=int(round(bg.height*(scale_w/bg.width)))\<close>
\<close>

definition cover_scale :: "(real \<Rightarrow> real) \<Rightarrow> int \<times> int \<Rightarrow> int \<times> int \<Rightarrow> int \<times> int" where
  "cover_scale fl bg_size target =
     (case (bg_size, target) of ((bg_w, bg_h), (target_w, target_h)) \<Rightarrow>
        let bg_ratio = fl (of_int bg_w / of_int bg_h);
            tgt_ratio = fl (of_int target_w / of_int target_h)
        in if bg_ratio > tgt_ratio
           then (py_round (fl (of_int bg_w * fl (of_int target_h / of_int bg_h))), target_h)
           else (target_w, py_round (fl (of_int bg_h * fl (of_int target_w / of_int bg_w)))))"

text \<open>
  \<^verbatim>\<open>canvas=Image.new("RGBA",(target_w,target_h),(255,255,255,255))
  ...
  bg_resized=bg.resize((scale_w,scale_h),Image.LANCZOS)
  left=(bg_resized.width-target_w)//2;top=(bg_resized.height-target_h)//2
  bg_crop=bg_resized.crop((left,top,left+target_w,top+target_h));canvas.paste(bg_crop,(0,0))\<close>
\<close>

definition crop_origin :: "int \<times> int \<Rightarrow> int \<times> int \<Rightarrow> int \<times> int" where
  "crop_origin resized_size target =
     (case (resized_size, target) of ((w, h), (target_w, target_h)) \<Rightarrow>
        ((w - target_w) div 2, (h - target_h) div 2))"

definition cover_canvas ::
  "(real \<Rightarrow> real) \<Rightarrow> (image \<Rightarrow> int \<Rightarrow> int \<Rightarrow> int \<Rightarrow> int \<Rightarrow> rgba) \<Rightarrow> image \<Rightarrow> int \<times> int \<Rightarrow> image" where
  "cover_canvas fl resample bg target =
     (case target of (target_w, target_h) \<Rightarrow>
        let canvas = image_new target_w target_h (255, 255, 255, 255);
            bg_resized = resize resample bg (cover_scale fl (width bg, height bg) target);
            (left, upper) = crop_origin (width bg_resized, height bg_resized) target;
            bg_crop = crop bg_resized (left, upper, left + target_w, upper + target_h)
        in paste canvas bg_crop (0, 0))"

section \<open>The worker's run\<close>

text \<open>
  The signals of \<open>CreatorWorker\<close> and what \<open>run\<close> leaves behind. A message is kept by
  its kind and its parameters rather than as formatted text.
\<close>

datatype log_msg =
    LogTarget
  | LogStopRequested
  | LogSaveFailed string string
  | LogExcel string
  | LogExcelError string

datatype error_msg =
    BackgroundNotFound
  | CannotOpenBackground string
  | SaveFailed string
  | WorkerException string

datatype signal =
    StartEstimate nat
  | Progress nat nat
  | Preview
  | Log log_msg
  | Error error_msg
  | Done string

record manifest_row =
  number :: int
  file_name :: string
  full_path :: string
  extension :: string

text \<open>
  The attributes of the worker that decide the control flow of \<open>run\<close>; \<open>out_ext\<close> is
  the lowered attribute.
\<close>

record job =
  output_folder :: string
  base_name :: string
  out_ext :: string
  ranges :: "int list"
  start_count :: int
  end_count :: int
  step :: int

text \<open>
  What the run meets outside itself: whether the background path is a file and opens,
  the value of \<open>self._stop\<close> read at the head of the iteration that starts with
  \<open>processed = k\<close> (the other thread sets it), an exception raised while a value's
  canvas is composed and drawn (it reaches the outer handler), an exception raised by
  \<open>save\<close> on a path, and one raised while the report is written.
\<close>

record env =
  background_is_file :: bool
  background_open_raises :: "string option"
  stop_seen :: "nat \<Rightarrow> bool"
  render_raises :: "int \<Rightarrow> string option"
  save_raises :: "string \<Rightarrow> string option"
  excel_raises :: "string option"

record world =
  saved :: "string list"
  manifest :: "manifest_row list option"
  emitted :: "signal list"

definition emit :: "signal list \<Rightarrow> world \<Rightarrow> world" where
  "emit sigs w = w\<lparr>emitted := emitted w @ sigs\<rparr>"

text \<open>How the \<open>for\<close> loop is left: it ends (exhausted or \<open>break\<close>), or \<open>run\<close> returns from inside it.\<close>

datatype loop_exit = LoopEnded | Returned

fun values_loop ::
  "env \<Rightarrow> job \<Rightarrow> nat \<Rightarrow> int list \<Rightarrow> nat \<Rightarrow> world \<Rightarrow> loop_exit \<times> nat \<times> world" where
  "values_loop e j n_total [] processed w = (LoopEnded, processed, w)"
| "values_loop e j n_total (val # rest) processed w =
     (if stop_seen e processed then (LoopEnded, processed, emit [Log LogStopRequested] w)
      else (case render_raises e val of
              Some x \<Rightarrow> (Returned, processed, emit [Error (WorkerException x)] w)
            | None \<Rightarrow>
                (let op = output_path (output_folder j) (base_name j) val (out_ext j)
                 in case save_raises e op of
                      Some x \<Rightarrow>
                        (Returned, processed,
                         emit [Log (LogSaveFailed op x), Error (SaveFailed x)] w)
                    | None \<Rightarrow>
                        values_loop e j n_total rest (processed + 1)
                          (emit [Progress (processed + 1) n_total, Preview]
                             (w\<lparr>saved := saved w @ [op]\<rparr>)))))"

text \<open>\<open>rows.append({"Number":v,"File Name":on,"Full Path":full,"Extension":self.out_ext})\<close>\<close>

definition manifest_row_of :: "job \<Rightarrow> int \<Rightarrow> manifest_row" where
  "manifest_row_of j v =
     \<lparr>number = v,
      file_name = output_name (base_name j) v (out_ext j),
      full_path = output_path (output_folder j) (base_name j) v (out_ext j),
      extension = out_ext j\<rparr>"

definition excel_path :: "job \<Rightarrow> string" where
  "excel_path j = path_join (output_folder j) ''created_images_report.xlsx''"

definition write_manifest :: "env \<Rightarrow> job \<Rightarrow> int list \<Rightarrow> nat \<Rightarrow> world \<Rightarrow> world" where
  "write_manifest e j count_values processed w =
     (let rows = map (manifest_row_of j) (take processed count_values)
      in if rows \<noteq> [] then
           (case excel_raises e of
              None \<Rightarrow> emit [Log (LogExcel (excel_path j))] (w\<lparr>manifest := Some rows\<rparr>)
            | Some x \<Rightarrow> emit [Log (LogExcelError x)] w)
         else w)"

definition count_values_of :: "job \<Rightarrow> int list" where
  "count_values_of j =
     (if ranges j \<noteq> [] then ranges j
      else simple_sequence (start_count j) (end_count j) (step j))"

definition world0 :: world where
  "world0 = \<lparr>saved = [], manifest = None, emitted = []\<rparr>"

definition run :: "env \<Rightarrow> job \<Rightarrow> world" where
  "run e j =
     (if \<not> background_is_file e then emit [Error BackgroundNotFound] world0
      else (case background_open_raises e of
              Some x \<Rightarrow> emit [Log LogTarget, Error (CannotOpenBackground x)] world0
            | None \<Rightarrow>
                (let count_values = count_values_of j;
                     n_total = length count_values
                 in case values_loop e j n_total count_values 0
                           (emit [Log LogTarget, StartEstimate n_total] world0) of
                      (Returned, processed, w) \<Rightarrow> w
                    | (LoopEnded, processed, w) \<Rightarrow>
                        emit [Done (output_folder j)]
                          (write_manifest e j count_values processed w))))"


text \<open>
  The signals of \<open>k\<close> values saved one after the other, the first of them when
  \<open>processed\<close> values were saved before:
  \<^verbatim>\<open>processed+=1;self.progress.emit(processed,total)
  try:self.preview.emit(canvas.copy())
  except:pass\<close>
\<close>

fun progress_signals :: "nat \<Rightarrow> nat \<Rightarrow> nat \<Rightarrow> signal list" where
  "progress_signals processed n_total 0 = []"
| "progress_signals processed n_total (Suc k) =
     [Progress (processed + 1) n_total, Preview] @ progress_signals (processed + 1) n_total k"

text \<open>The path \<open>op\<close> a value is saved to.\<close>

definition path_of :: "job \<Rightarrow> int \<Rightarrow> string" where
  "path_of j v = output_path (output_folder j) (base_name j) v (out_ext j)"

text \<open>
  A job of three values, a run whose stop flag is seen set from the \<open>n\<close>-th loop head
  on, and a run in which saving to one path fails.
\<close>

definition job0 :: job where
  "job0 = \<lparr>output_folder = ''out'', base_name = ''t'', out_ext = ''png'', ranges = [1, 2, 3],
     start_count = 0, end_count = 0, step = 1\<rparr>"

definition env_stop_at :: "nat \<Rightarrow> env" where
  "env_stop_at n = \<lparr>background_is_file = True, background_open_raises = None,
     stop_seen = (\<lambda>k. n \<le> k), render_raises = (\<lambda>v. None), save_raises = (\<lambda>p. None),
     excel_raises = None\<rparr>"

definition env_save_fails_at :: "string \<Rightarrow> env" where
  "env_save_fails_at p = \<lparr>background_is_file = True, background_open_raises = None,
     stop_seen = (\<lambda>k. False), render_raises = (\<lambda>v. None),
     save_raises = (\<lambda>q. if q = p then Some ''disk full'' else None),
     excel_raises = None\<rparr>"

section \<open>Properties\<close>

text \<open>The loops are unfolded one step at a time, where a proof asks for it.\<close>

declare range_up.simps [simp del] range_down.simps [simp del] shrink_loop.simps [simp del]

subsection \<open>File names\<close>

lemma set_forbidden_chars: "set forbidden_chars = listed_chars"
  by (auto simp: forbidden_chars_def listed_chars_def)

lemma sanitize_filename_filter:
  "sanitize_filename name = filter (\<lambda>c. c \<notin> listed_chars) name"
  by (induction name) (simp_all add: set_forbidden_chars)

lemma sanitize_filename_clean: "set (sanitize_filename name) \<inter> listed_chars = {}"
  by (auto simp: sanitize_filename_filter)

lemma path_join_clean_name:
  "CHR ''/'' \<notin> set name \<Longrightarrow>
     path_join folder name = folder @ name \<or> path_join folder name = folder @ ''/'' @ name"
  by (cases name) (auto simp: path_join_def)

text \<open>
  C9. \<open>sanitize_filename\<close> removes exactly the characters \<open>\ / : * ? " < > |\<close> and keeps
  every other character in its place; the file name that the render pipeline composes
  from the base name and the value holds none of the nine, in either variant, and the
  output path is the output folder followed by that name (after a separator where the
  folder needs one).
\<close>

theorem sanitized_output_path:
  "sanitize_filename name = filter (\<lambda>c. c \<notin> listed_chars) name
   \<and> set (sanitize_filename (output_name_pro base val ext)) \<inter> listed_chars = {}
   \<and> set (sanitize_filename (output_name base ival ext)) \<inter> listed_chars = {}
   \<and> (output_path_pro folder base val ext
          = folder @ sanitize_filename (output_name_pro base val ext)
        \<or> output_path_pro folder base val ext
          = folder @ ''/'' @ sanitize_filename (output_name_pro base val ext))
   \<and> (output_path folder base ival ext
          = folder @ sanitize_filename (output_name base ival ext)
        \<or> output_path folder base ival ext
          = folder @ ''/'' @ sanitize_filename (output_name base ival ext))"
proof -
  have slash: "CHR ''/'' \<in> listed_chars" by (simp add: listed_chars_def)
  have a: "CHR ''/'' \<notin> set (sanitize_filename n)" for n
    using sanitize_filename_clean[of n] slash by blast
  show ?thesis
    using path_join_clean_name[OF a] sanitize_filename_clean
    by (simp add: sanitize_filename_filter[symmetric] output_path_pro_def output_path_def)
qed

theorem sanitized_output_path_witness:
  "sanitize_filename ''a/b:c*d?e<f>g|h'' = ''abcdefgh''
   \<and> output_path_pro ''out'' ''tick/et'' (StrVal ''no:1'') ''png'' = ''out/ticket_no1.png''
   \<and> output_path ''out/'' [] 7 ''jpg'' = ''out/created_7.jpg''"
proof -
  have "sanitize_filename ''a/b:c*d?e<f>g|h'' = filter (\<lambda>c. c \<notin> listed_chars) ''a/b:c*d?e<f>g|h''"
    using sanitized_output_path[of "''a/b:c*d?e<f>g|h''"] by blast
  moreover have "filter (\<lambda>c. c \<notin> listed_chars) ''a/b:c*d?e<f>g|h'' = ''abcdefgh''"
    by (simp add: listed_chars_def)
  moreover have "output_path_pro ''out'' ''tick/et'' (StrVal ''no:1'') ''png'' = ''out/ticket_no1.png''"
    by code_simp
  moreover have "output_path ''out/'' [] 7 ''jpg'' = ''out/created_7.jpg''"
    by code_simp
  ultimately show ?thesis by simp
qed

subsection \<open>Simple mode\<close>

lemma range_up_eq:
  "0 < s \<Longrightarrow> range_up a b s = map (\<lambda>k. a + int k * s) [0..<nat ((b - 1 - a) div s + 1)]"
proof (induction a b s rule: range_up.induct)
  case (1 a b s)
  show ?case
  proof (cases "a < b")
    case True
    have d: "(b - 1 - (a + s)) div s = (b - 1 - a) div s - 1"
      using 1(2) div_add_self2[of s "b - 1 - (a + s)"] by (simp add: algebra_simps)
    have nn: "0 \<le> (b - 1 - a) div s" using True 1(2) by (simp add: pos_imp_zdiv_nonneg_iff)
    have n: "nat ((b - 1 - a) div s + 1) = Suc (nat ((b - 1 - a) div s))" using nn by simp
    have "range_up a b s = a # range_up (a + s) b s" using True 1(2) range_up.simps[of a b s] by simp
    also have "\<dots> = a # map (\<lambda>k. a + s + int k * s) [0..<nat ((b - 1 - a) div s)]"
      using 1(1)[OF _ 1(2)] True 1(2) d by simp
    also have "\<dots> = map (\<lambda>k. a + int k * s) [0..<Suc (nat ((b - 1 - a) div s))]"
      by (simp add: upt_conv_Cons map_Suc_upt[symmetric] del: upt_Suc) (simp add: algebra_simps)
    finally show ?thesis using n by simp
  next
    case False
    then have "(b - 1 - a) div s < 0" using 1(2) by (simp add: div_neg_pos_less0)
    then show ?thesis using False range_up.simps[of a b s] by simp
  qed
qed

lemma range_down_eq:
  "0 < s \<Longrightarrow> range_down a b s = map (\<lambda>k. a - int k * s) [0..<nat ((a - 1 - b) div s + 1)]"
proof (induction a b s rule: range_down.induct)
  case (1 a b s)
  show ?case
  proof (cases "b < a")
    case True
    have d: "(a - s - 1 - b) div s = (a - 1 - b) div s - 1"
      using 1(2) div_add_self2[of s "a - s - 1 - b"] by (simp add: algebra_simps)
    have nn: "0 \<le> (a - 1 - b) div s" using True 1(2) by (simp add: pos_imp_zdiv_nonneg_iff)
    have n: "nat ((a - 1 - b) div s + 1) = Suc (nat ((a - 1 - b) div s))" using nn by simp
    have "range_down a b s = a # range_down (a - s) b s" using True 1(2) range_down.simps[of a b s] by simp
    also have "\<dots> = a # map (\<lambda>k. a - s - int k * s) [0..<nat ((a - 1 - b) div s)]"
      using 1(1)[OF _ 1(2)] True 1(2) d by simp
    also have "\<dots> = map (\<lambda>k. a - int k * s) [0..<Suc (nat ((a - 1 - b) div s))]"
      by (simp add: upt_conv_Cons map_Suc_upt[symmetric] del: upt_Suc) (simp add: algebra_simps)
    finally show ?thesis using n by simp
  next
    case False
    then have "(a - 1 - b) div s < 0" using 1(2) by (simp add: div_neg_pos_less0)
    then show ?thesis using False range_down.simps[of a b s] by simp
  qed
qed

lemma simple_sequence_up:
  assumes "a0 \<le> b0"
  shows "simple_sequence a0 b0 step0 =
     map (\<lambda>k. a0 + int k * max 1 step0)
       [0..<nat ((b0 - a0) div max 1 step0 + 1)]"
proof -
  have "0 < max 1 step0" by simp
  from range_up_eq[OF this, of a0 "b0 + 1"] assms
  show ?thesis by (simp add: simple_sequence_def py_range_def Let_def)
qed

lemma simple_sequence_down:
  assumes "b0 < a0"
  shows "simple_sequence a0 b0 step0 =
     map (\<lambda>k. a0 - int k * max 1 step0)
       [0..<nat ((a0 - b0) div max 1 step0 + 1)]"
proof -
  have "0 < max 1 step0" by simp
  from range_down_eq[OF this, of a0 "b0 - 1"] assms
  show ?thesis by (simp add: simple_sequence_def py_range_def Let_def)
qed

lemma mult_div_le: "0 < s \<Longrightarrow> 0 \<le> d \<Longrightarrow> int k < d div s + 1 \<Longrightarrow> int k * s \<le> (d::int)"
proof -
  assume s: "0 < s" and d: "0 \<le> d" and k: "int k < d div s + 1"
  then have "int k \<le> d div s" by simp
  then have "int k * s \<le> (d div s) * s" using s by (simp add: mult_right_mono)
  also have "\<dots> \<le> d" using s pos_mod_sign[of s d] div_mult_mod_eq[of d s] by linarith
  finally show ?thesis .
qed

lemma simple_sequence_bounds:
  assumes "v \<in> set (simple_sequence a0 b0 step0)"
  shows "min a0 b0 \<le> v \<and> v \<le> max a0 b0"
proof (cases "a0 \<le> b0")
  case True
  let ?s = "max 1 step0"
  from assms simple_sequence_up[OF True, of step0]
  obtain k where k: "k < nat ((b0 - a0) div ?s + 1)" and v: "v = a0 + int k * ?s"
    by auto
  have "int k * ?s \<le> b0 - a0"
    using mult_div_le[of ?s "b0 - a0" k] k True by simp
  moreover have "0 \<le> int k * ?s" by simp
  ultimately show ?thesis using v True by simp
next
  case False
  let ?s = "max 1 step0"
  from False have lt: "b0 < a0" by simp
  from assms simple_sequence_down[OF lt, of step0]
  obtain k where k: "k < nat ((a0 - b0) div ?s + 1)" and v: "v = a0 - int k * ?s"
    by auto
  have "int k * ?s \<le> a0 - b0"
    using mult_div_le[of ?s "a0 - b0" k] k lt by simp
  moreover have "0 \<le> int k * ?s" by simp
  ultimately show ?thesis using v lt by simp
qed

text \<open>
  C7. Simple mode gives the arithmetic sequence from the start towards the end, the step
  coerced to at least 1: ascending when start \<open>\<le>\<close> end, descending otherwise, as many
  terms as stay on the near side of the end, so that no value passes it. Start 1, end 10,
  step 1 gives 1 to 10; start 10, end 1, step 2 gives 10, 8, 6, 4, 2.
\<close>

theorem simple_sequence_arithmetic:
  "simple_sequence 1 10 1 = [1, 2, 3, 4, 5, 6, 7, 8, 9, 10]
   \<and> simple_sequence 10 1 2 = [10, 8, 6, 4, 2]
   \<and> (a0 \<le> b0 \<longrightarrow> simple_sequence a0 b0 step0 =
         map (\<lambda>k. a0 + int k * max 1 step0) [0..<nat ((b0 - a0) div max 1 step0 + 1)])
   \<and> (b0 < a0 \<longrightarrow> simple_sequence a0 b0 step0 =
         map (\<lambda>k. a0 - int k * max 1 step0) [0..<nat ((a0 - b0) div max 1 step0 + 1)])
   \<and> (\<forall>v \<in> set (simple_sequence a0 b0 step0). min a0 b0 \<le> v \<and> v \<le> max a0 b0)"
proof -
  have "simple_sequence 1 10 1 = [1, 2, 3, 4, 5, 6, 7, 8, 9, 10]" by code_simp
  moreover have "simple_sequence 10 1 2 = [10, 8, 6, 4, 2]" by code_simp
  ultimately show ?thesis
    using simple_sequence_up simple_sequence_down simple_sequence_bounds
    by blast
qed

theorem simple_sequence_arithmetic_witness:
  "(3::int) \<le> 11 \<and> simple_sequence 3 11 4 = [3, 7, 11]
   \<and> (2::int) < 9 \<and> simple_sequence 9 2 (- 5) = [9, 8, 7, 6, 5, 4, 3, 2]"
proof -
  have u: "[0..<3] = [0, 1, 2]" "[0..<8] = [0, 1, 2, 3, 4, 5, 6, 7]" by code_simp+
  from simple_sequence_arithmetic[of 3 11 4]
  have "simple_sequence 3 11 4 = [3, 7, 11]" by (simp add: u)
  moreover from simple_sequence_arithmetic[of 9 2 "- 5"]
  have "simple_sequence 9 2 (- 5) = [9, 8, 7, 6, 5, 4, 3, 2]" by (simp add: u)
  ultimately show ?thesis by simp
qed

subsection \<open>Text fit\<close>




subsection \<open>The ranges grammar\<close>

lemma dedup_loop_first_seen:
  "dedup_loop vals (set out) out = out @ filter (\<lambda>v. v \<notin> set out) (first_seen vals)"
proof (induction vals arbitrary: out)
  case Nil
  show ?case by simp
next
  case (Cons v vals)
  show ?case
  proof (cases "v \<in> set out")
    case True
    then have "filter (\<lambda>u. u \<notin> set out) (filter (\<lambda>u. u \<noteq> v) (first_seen vals))
        = filter (\<lambda>u. u \<notin> set out) (first_seen vals)"
      by (auto intro: filter_cong)
    with True Cons[of out] show ?thesis by simp
  next
    case False
    have "filter (\<lambda>u. u \<notin> set (out @ [v])) (first_seen vals)
        = filter (\<lambda>u. u \<notin> set out) (filter (\<lambda>u. u \<noteq> v) (first_seen vals))"
      by (auto intro: filter_cong)
    with False Cons[of "out @ [v]"] show ?thesis by simp
  qed
qed

lemma set_first_seen: "set (first_seen vals) = set vals"
  by (induction vals) auto

lemma distinct_first_seen: "distinct (first_seen vals)"
  by (induction vals) (auto simp: set_first_seen)

lemma first_pos_Cons:
  "first_pos (v # vals) u = (if u = v then 0 else Suc (first_pos vals u))"
  by (auto simp: first_pos_def)

lemma sorted_first_seen:
  "sorted_wrt (\<lambda>u v. first_pos vals u < first_pos vals v) (first_seen vals)"
proof (induction vals)
  case Nil
  show ?case by simp
next
  case (Cons v vals)
  have "sorted_wrt (\<lambda>a b. first_pos vals a < first_pos vals b) (filter (\<lambda>u. u \<noteq> v) (first_seen vals))"
    using Cons by (rule sorted_wrt_filter)
  then have "sorted_wrt (\<lambda>a b. first_pos (v # vals) a < first_pos (v # vals) b)
       (filter (\<lambda>u. u \<noteq> v) (first_seen vals))"
    by (rule sorted_wrt_mono_rel[rotated]) (auto simp: first_pos_Cons)
  then show ?case by (auto simp: first_pos_Cons)
qed

lemma strip_Nil_iff: "strip s = [] \<longleftrightarrow> (\<forall>c \<in> set s. is_space c)"
proof
  assume "\<forall>c \<in> set s. is_space c"
  then show "strip s = []" by (auto simp: strip_def dest: set_dropWhileD)
next
  assume "strip s = []"
  then have a: "\<forall>c \<in> set (dropWhile is_space s). is_space c"
    by (simp add: strip_def dropWhile_eq_Nil_conv)
  have "dropWhile is_space s = []"
  proof (rule ccontr)
    assume n: "dropWhile is_space s \<noteq> []"
    then have "\<not> is_space (hd (dropWhile is_space s))" by (rule hd_dropWhile)
    moreover have "hd (dropWhile is_space s) \<in> set (dropWhile is_space s)" using n by simp
    ultimately show False using a by blast
  qed
  then show "\<forall>c \<in> set s. is_space c" by (simp add: dropWhile_eq_Nil_conv)
qed

lemma split_on_no_sep: "sep \<notin> set s \<Longrightarrow> split_on sep s = [s]"
  by (induction s) auto

lemma range_parts_blank:
  assumes "strip spec = []"
  shows "range_parts spec = []"
proof -
  from assms have sp: "\<forall>c \<in> set spec. is_space c" by (simp add: strip_Nil_iff)
  have "\<not> is_space (CHR '';'')" "\<not> is_space (CHR '','')" by (simp_all add: is_space_def)
  with sp have no: "CHR '';'' \<notin> set spec" "CHR '','' \<notin> set spec" by auto
  then have "replace (CHR '';'') (CHR '','') spec = spec"
    by (auto simp: replace_def intro: map_idI)
  with no assms show ?thesis by (simp add: range_parts_def split_on_no_sep)
qed

text \<open>
  C2. \<open>parse_ranges\<close> on \<open>1-5:2, 7, 20-18\<close> returns 1, 3, 5, 7, 20, 19, 18. Whenever it
  returns, the sequence has no duplicate, holds exactly the values of the expanded token
  stream, and lists them in the order of their first occurrence there.
\<close>

theorem parse_ranges_first_seen_order:
  "parse_ranges ''1-5:2, 7, 20-18'' = Inr [1, 3, 5, 7, 20, 19, 18]
   \<and> (parse_ranges spec = Inr out \<longrightarrow>
        distinct out
        \<and> (\<exists>vals. expand_parts (range_parts spec) [] = Inr vals
              \<and> set out = set vals
              \<and> out = first_seen vals
              \<and> sorted_wrt (\<lambda>u v. first_pos vals u < first_pos vals v) out))"
proof -
  have ex: "parse_ranges ''1-5:2, 7, 20-18'' = Inr [1, 3, 5, 7, 20, 19, 18]" by code_simp
  have d: "dedup_loop vals {} [] = first_seen vals" for vals
    using dedup_loop_first_seen[of vals "[]"] by simp
  have "distinct out
        \<and> (\<exists>vals. expand_parts (range_parts spec) [] = Inr vals
              \<and> set out = set vals
              \<and> out = first_seen vals
              \<and> sorted_wrt (\<lambda>u v. first_pos vals u < first_pos vals v) out)"
    if r: "parse_ranges spec = Inr out"
  proof (cases "strip spec = []")
    case True
    with r have "out = []" by (simp add: parse_ranges_def)
    with True show ?thesis by (simp add: range_parts_blank)
  next
    case False
    with r obtain vals where v: "expand_parts (range_parts spec) [] = Inr vals"
      and o: "out = first_seen vals"
      by (auto simp: parse_ranges_def d split: sum.splits)
    show ?thesis
      using v o distinct_first_seen[of vals] set_first_seen[of vals] sorted_first_seen[of vals]
      by auto
  qed
  with ex show ?thesis by blast
qed

theorem parse_ranges_first_seen_order_witness:
  "parse_ranges ''3,1-3;2 ,3x'' = Inr [3, 1, 2]
   \<and> expand_parts (range_parts ''3,1-3;2 ,3x'') [] = Inr [3, 1, 2, 3, 2]
   \<and> distinct [3, 1, 2 :: int]
   \<and> [3, 1, 2] = first_seen [3, 1, 2, 3, 2]
   \<and> sorted_wrt (\<lambda>u v. first_pos [3, 1, 2, 3, 2] u < first_pos [3, 1, 2, 3, 2] v) [3, 1, 2]"
proof -
  have r: "parse_ranges ''3,1-3;2 ,3x'' = Inr [3, 1, 2]" by code_simp
  have v: "expand_parts (range_parts ''3,1-3;2 ,3x'') [] = Inr [3, 1, 2, 3, 2]" by code_simp
  from parse_ranges_first_seen_order[of "''3,1-3;2 ,3x''" "[3, 1, 2]"] r v
  show ?thesis by auto
qed

text \<open>
  C3. The claim is that \<open>parse_ranges\<close> never raises and skips every malformed token.
  A malformed bare integer is skipped, but a malformed range is not: the branch taken
  for a token with a \<open>-\<close> converts its endpoints and its step outside any \<open>try\<close>, so
  \<open>1-x\<close>, \<open>a-b\<close> and the negative number \<open>-5\<close> each raise \<open>ValueError\<close>, and the values
  of the tokens before them are lost with the call.
\<close>

theorem parse_ranges_malformed_range_raises:
  "parse_ranges ''1-x'' = Inl ValueError
   \<and> parse_ranges ''a-b'' = Inl ValueError
   \<and> parse_ranges ''7, 1-x'' = Inl ValueError
   \<and> parse_ranges ''-5'' = Inl ValueError
   \<and> parse_ranges ''7, x, 2:5'' = Inr [7]"
proof -
  have "parse_ranges ''1-x'' = Inl ValueError" by code_simp
  moreover have "parse_ranges ''a-b'' = Inl ValueError" by code_simp
  moreover have "parse_ranges ''7, 1-x'' = Inl ValueError" by code_simp
  moreover have "parse_ranges ''-5'' = Inl ValueError" by code_simp
  moreover have "parse_ranges ''7, x, 2:5'' = Inr [7]" by code_simp
  ultimately show ?thesis by simp
qed

subsection \<open>Measurements and the canvas size\<close>

lemma round_trip_bound:
  fixes fl :: "real \<Rightarrow> real"
  assumes u: "0 \<le> u" and c: "c \<noteq> 0"
    and fl: "\<forall>y. \<bar>y\<bar> \<le> M \<longrightarrow> \<bar>fl y - y\<bar> \<le> u * \<bar>y\<bar> + e"
    and r1: "\<bar>x / c\<bar> \<le> M" and r2: "\<bar>fl (x / c) * c\<bar> \<le> M"
  shows "\<bar>fl (fl (x / c) * c) - x\<bar> \<le> (2 * u + u * u) * \<bar>x\<bar> + e * (1 + (1 + u) * \<bar>c\<bar>)"
proof -
  let ?q = "fl (x / c)"
  have q: "\<bar>?q - x / c\<bar> \<le> u * \<bar>x / c\<bar> + e" using fl r1 by blast
  have "\<bar>?q * c - x\<bar> = \<bar>?q - x / c\<bar> * \<bar>c\<bar>"
    using c by (simp add: abs_mult[symmetric] algebra_simps)
  also have "\<dots> \<le> (u * \<bar>x / c\<bar> + e) * \<bar>c\<bar>"
    using q by (rule mult_right_mono) simp
  also have "\<dots> = u * \<bar>x\<bar> + e * \<bar>c\<bar>"
    using c by (simp add: algebra_simps abs_divide)
  finally have d1: "\<bar>?q * c - x\<bar> \<le> u * \<bar>x\<bar> + e * \<bar>c\<bar>" .
  have "\<bar>?q * c\<bar> \<le> \<bar>?q * c - x\<bar> + \<bar>x\<bar>" by linarith
  with d1 have m: "\<bar>?q * c\<bar> \<le> (1 + u) * \<bar>x\<bar> + e * \<bar>c\<bar>" by (simp add: algebra_simps)
  have p: "\<bar>fl (?q * c) - ?q * c\<bar> \<le> u * \<bar>?q * c\<bar> + e" using fl r2 by blast
  have "u * \<bar>?q * c\<bar> \<le> u * ((1 + u) * \<bar>x\<bar> + e * \<bar>c\<bar>)"
    using m u by (rule mult_left_mono)
  with p have p': "\<bar>fl (?q * c) - ?q * c\<bar> \<le> u * ((1 + u) * \<bar>x\<bar> + e * \<bar>c\<bar>) + e" by linarith
  have "\<bar>fl (?q * c) - x\<bar> \<le> \<bar>fl (?q * c) - ?q * c\<bar> + \<bar>?q * c - x\<bar>" by linarith
  with p' d1 have "\<bar>fl (?q * c) - x\<bar> \<le> u * ((1 + u) * \<bar>x\<bar> + e * \<bar>c\<bar>) + e + (u * \<bar>x\<bar> + e * \<bar>c\<bar>)"
    by linarith
  also have "\<dots> = (2 * u + u * u) * \<bar>x\<bar> + e * (1 + (1 + u) * \<bar>c\<bar>)"
    by (simp add: algebra_simps)
  finally show ?thesis .
qed

lemma milli_rounding:
  "\<bar>real_of_int (round (y * 1000)) / 1000 - y\<bar> \<le> 0 * \<bar>y\<bar> + 1 / 2000" for y :: real
proof -
  define r where "r = real_of_int (round (y * 1000))"
  have b: "\<bar>r - y * 1000\<bar> \<le> 1 / 2" unfolding r_def by (rule of_int_round_abs_le)
  have "r / 1000 - y = (r - y * 1000) / 1000" by (simp add: field_simps)
  then have "\<bar>r / 1000 - y\<bar> = \<bar>r - y * 1000\<bar> / 1000" by (simp only: abs_divide)
  with b have "\<bar>r / 1000 - y\<bar> \<le> 1 / 2000" by linarith
  then show ?thesis unfolding r_def by simp
qed

text \<open>
  C8. \<open>inches_from_unit\<close> returns the value for \<open>inches\<close>, the value divided by 2.54 for
  \<open>cm\<close>, by 25.4 for \<open>mm\<close> (each quotient rounded once, as a double division is), and the
  value itself for any other unit; it is total. The round trip: when every operation's
  result is within a relative error \<open>u\<close> and an absolute error \<open>e\<close> of the exact one
  (for doubles rounded to nearest, \<open>u\<close> is 2 to the -53 and \<open>e\<close> half the least
  subnormal, for results of magnitude up to the overflow threshold \<open>M\<close>),
  \<open>inches_from_unit(x, "cm") * 2.54\<close> is within \<open>(2u + u\<^sup>2)|x| + e(1 + (1 + u)|c|)\<close>
  of \<open>x\<close>, where \<open>c\<close> is the double that the literal \<open>2.54\<close> denotes.
\<close>

theorem inches_from_unit_round_trip:
  fixes fl :: "real \<Rightarrow> real"
  assumes "0 \<le> u" and "fl 2.54 \<noteq> 0"
    and "\<forall>y. \<bar>y\<bar> \<le> M \<longrightarrow> \<bar>fl y - y\<bar> \<le> u * \<bar>y\<bar> + e"
    and "\<bar>x / fl 2.54\<bar> \<le> M" and "\<bar>inches_from_unit fl x ''cm'' * fl 2.54\<bar> \<le> M"
  shows "inches_from_unit fl v ''inches'' = v
     \<and> inches_from_unit fl v ''cm'' = fl (v / fl 2.54)
     \<and> inches_from_unit fl v ''mm'' = fl (v / fl 25.4)
     \<and> (unit \<noteq> ''inches'' \<and> unit \<noteq> ''cm'' \<and> unit \<noteq> ''mm'' \<longrightarrow> inches_from_unit fl v unit = v)
     \<and> \<bar>fl (inches_from_unit fl x ''cm'' * fl 2.54) - x\<bar>
          \<le> (2 * u + u * u) * \<bar>x\<bar> + e * (1 + (1 + u) * \<bar>fl 2.54\<bar>)"
proof -
  have cm: "inches_from_unit fl y ''cm'' = fl (y / fl 2.54)" for y
    by (simp add: inches_from_unit_def)
  have "\<bar>fl (fl (x / fl 2.54) * fl 2.54) - x\<bar>
          \<le> (2 * u + u * u) * \<bar>x\<bar> + e * (1 + (1 + u) * \<bar>fl 2.54\<bar>)"
    using assms(1-4) assms(5)[unfolded cm] by (rule round_trip_bound)
  then show ?thesis by (simp add: inches_from_unit_def)
qed

theorem inches_from_unit_round_trip_witness:
  "\<bar>(\<lambda>y::real. real_of_int (round (y * 1000)) / 1000)
       (inches_from_unit (\<lambda>y::real. real_of_int (round (y * 1000)) / 1000) 254 ''cm''
          * (\<lambda>y::real. real_of_int (round (y * 1000)) / 1000) 2.54) - 254\<bar>
     \<le> 177 / 100000"
proof -
  let ?fl = "\<lambda>y::real. real_of_int (round (y * 1000)) / 1000"
  have c: "?fl 2.54 = 2.54" by simp
  have i: "inches_from_unit ?fl 254 ''cm'' = 100" by (simp add: inches_from_unit_def)
  have h1: "(0::real) \<le> 0" by simp
  have h2: "?fl 2.54 \<noteq> 0" using c by simp
  have h3: "\<forall>y. \<bar>y\<bar> \<le> 1000 \<longrightarrow> \<bar>?fl y - y\<bar> \<le> 0 * \<bar>y\<bar> + 1 / 2000"
    using milli_rounding by blast
  have h4: "\<bar>254 / ?fl 2.54\<bar> \<le> (1000::real)" by (simp add: c)
  have h5: "\<bar>inches_from_unit ?fl 254 ''cm'' * ?fl 2.54\<bar> \<le> 1000" by (simp only: i c) simp
  from inches_from_unit_round_trip[OF h1 h2 h3 h4 h5]
  have "\<bar>?fl (inches_from_unit ?fl 254 ''cm'' * ?fl 2.54) - 254\<bar>
          \<le> (2 * 0 + 0 * 0) * \<bar>254\<bar> + (1 / 2000) * (1 + (1 + 0) * \<bar>?fl 2.54\<bar>)"
    by blast
  also have "\<dots> = 177 / 100000" by (simp only: c) simp
  finally show ?thesis .
qed

text \<open>
  C4, as claimed: the background's size replaces the target size exactly when both
  rounded pixel dimensions are at most 1. At width 0 and height 1 inch, 300 DPI, only the
  width rounds to at most 1 (the height is 300 pixels), and the worker still takes the
  background's 640 by 480 instead of keeping 1 by 300.
\<close>

theorem auto_fit_one_dimension_counterexample:
  "target_pixels (\<lambda>x. x) 0 ''inches'' 300 = 1
   \<and> target_pixels (\<lambda>x. x) 1 ''inches'' 300 = 300
   \<and> canvas_size (\<lambda>x. x) 0 1 ''inches'' 300 (640, 480) = (640, 480)
   \<and> canvas_size (\<lambda>x. x) 0 1 ''inches'' 300 (640, 480) \<noteq> (1, 300)"
  by (simp add: canvas_size_def auto_fit_def target_pixels_def inches_from_unit_def py_round_def)

text \<open>
  C4, amended: the worker takes the background's pixel size exactly when at least one of
  the rounded pixel width and the rounded pixel height is at most 1 (a width or a height
  of zero asks for auto-fit); it keeps the explicit size only when both exceed 1.
\<close>

theorem auto_fit_either_dimension:
  "canvas_size fl width_val height_val unit dpi bg_size =
     (let rw = py_round (fl (inches_from_unit fl width_val unit * of_int (max 1 dpi)));
          rh = py_round (fl (inches_from_unit fl height_val unit * of_int (max 1 dpi)))
      in if rw \<le> 1 \<or> rh \<le> 1 then bg_size else (rw, rh))"
  by (auto simp: canvas_size_def auto_fit_def target_pixels_def Let_def)

theorem auto_fit_either_dimension_witness:
  "canvas_size (\<lambda>x. x) 2 0 ''inches'' 300 (640, 480) = (640, 480)
   \<and> canvas_size (\<lambda>x. x) 2 3 ''inches'' 300 (640, 480) = (600, 900)"
  using auto_fit_either_dimension[of "\<lambda>x. x" 2 0 "''inches''" 300 "(640, 480)"]
    auto_fit_either_dimension[of "\<lambda>x. x" 2 3 "''inches''" 300 "(640, 480)"]
  by (simp add: inches_from_unit_def py_round_def)

subsection \<open>Cover mode\<close>

text \<open>
  What holds of the cover branch: the canvas has exactly the target size, each of its
  pixels is the pixel of the resized background at the crop offset, and the crop takes
  half of the excess, rounded down, from the left and from the top.
\<close>

lemma cover_canvas_size:
  "width (cover_canvas fl resample bg (target_w, target_h)) = target_w
   \<and> height (cover_canvas fl resample bg (target_w, target_h)) = target_h"
  by (simp add: cover_canvas_def paste_def image_new_def Let_def split: prod.splits)

lemma cover_canvas_pixel:
  assumes "0 \<le> x" "x < target_w" "0 \<le> y" "y < target_h"
  shows "getpixel (cover_canvas fl resample bg (target_w, target_h)) x y =
     (let bg_resized = resize resample bg (cover_scale fl (width bg, height bg) (target_w, target_h));
          left = (width bg_resized - target_w) div 2;
          upper = (height bg_resized - target_h) div 2
      in if 0 \<le> x + left \<and> x + left < width bg_resized
            \<and> 0 \<le> y + upper \<and> y + upper < height bg_resized
         then getpixel bg_resized (x + left) (y + upper) else (0, 0, 0, 0))"
  using assms
  by (simp add: cover_canvas_def paste_def crop_def crop_origin_def image_new_def Let_def)

lemma crop_origin_symmetric:
  assumes "crop_origin (w, h) (target_w, target_h) = (left, upper)"
  shows "left = (w - target_w) div 2 \<and> upper = (h - target_h) div 2
     \<and> (w - target_w) - left - left \<in> {0, 1} \<and> (h - target_h) - upper - upper \<in> {0, 1}"
  using assms by (auto simp: crop_origin_def)

text \<open>
  C5. The claim is that the cover branch gives a canvas of the target size with every
  pixel fully opaque, whatever transparency the source has. The size holds. The opacity
  does not: the crop is pasted without a mask, which overwrites the alpha band of the
  white canvas with the source's. A 2 by 2 background whose first pixel is transparent,
  fitted to 2 by 2 (no resampling takes place), leaves that pixel transparent. The
  contain branch pastes with the image as its own mask and keeps the canvas opaque.
\<close>

theorem cover_keeps_source_transparency:
  "width (cover_canvas (\<lambda>x. x) resample
       \<lparr>width = 2, height = 2,
        getpixel = (\<lambda>x y. if x = 0 \<and> y = 0 then (0, 0, 0, 0) else (10, 20, 30, 255))\<rparr> (2, 2)) = 2
   \<and> height (cover_canvas (\<lambda>x. x) resample
       \<lparr>width = 2, height = 2,
        getpixel = (\<lambda>x y. if x = 0 \<and> y = 0 then (0, 0, 0, 0) else (10, 20, 30, 255))\<rparr> (2, 2)) = 2
   \<and> alpha (getpixel (cover_canvas (\<lambda>x. x) resample
       \<lparr>width = 2, height = 2,
        getpixel = (\<lambda>x y. if x = 0 \<and> y = 0 then (0, 0, 0, 0) else (10, 20, 30, 255))\<rparr> (2, 2)) 0 0) = 0"
  by (simp add: cover_canvas_def paste_def crop_def crop_origin_def image_new_def Let_def
      resize_def cover_scale_def py_round_def alpha_def)

subsection \<open>The run: cancellation and save failure\<close>

lemma values_loop_prefix:
  assumes "\<forall>k < length pre. \<not> stop_seen e (p + k) \<and> render_raises e (pre ! k) = None
             \<and> save_raises e (path_of j (pre ! k)) = None"
  shows "values_loop e j n (pre @ rest) p w =
     values_loop e j n rest (p + length pre)
       (w\<lparr>saved := saved w @ map (path_of j) pre,
          emitted := emitted w @ progress_signals p n (length pre)\<rparr>)"
  using assms
proof (induction pre arbitrary: p w)
  case Nil
  show ?case by simp
next
  case (Cons v pre)
  from Cons.prems have h0: "\<not> stop_seen e p" "render_raises e v = None"
    "save_raises e (path_of j v) = None"
    by force+
  have rest: "\<forall>k < length pre. \<not> stop_seen e (Suc p + k) \<and> render_raises e (pre ! k) = None
             \<and> save_raises e (path_of j (pre ! k)) = None"
  proof (intro allI impI)
    fix k assume "k < length pre"
    then have "Suc k < length (v # pre)" by simp
    from Cons.prems[rule_format, OF this] show "\<not> stop_seen e (Suc p + k) \<and> render_raises e (pre ! k) = None
             \<and> save_raises e (path_of j (pre ! k)) = None" by simp
  qed
  show ?case
    using h0 Cons.IH[OF rest]
    by (simp add: path_of_def[symmetric] emit_def Let_def)
qed

lemma values_loop_stop:
  assumes "stop_seen e p" "rest \<noteq> []"
  shows "values_loop e j n rest p w = (LoopEnded, p, emit [Log LogStopRequested] w)"
  using assms by (cases rest) simp_all

lemma values_loop_save_fails:
  assumes "\<not> stop_seen e p" "render_raises e v = None" "save_raises e (path_of j v) = Some x"
  shows "values_loop e j n (v # rest) p w =
     (Returned, p, emit [Log (LogSaveFailed (path_of j v) x), Error (SaveFailed x)] w)"
  using assms by (simp add: path_of_def Let_def)

lemma done_notin_progress: "Done f \<notin> set (progress_signals p n k)"
  by (induction k arbitrary: p) auto

lemma length_progress: "length (progress_signals p n k) = 2 * k"
  by (induction k arbitrary: p) auto


lemma run_started:
  assumes "background_is_file e" and "background_open_raises e = None"
  shows "run e j =
     (case values_loop e j (length (count_values_of j)) (count_values_of j) 0
             (emit [Log LogTarget, StartEstimate (length (count_values_of j))] world0) of
        (Returned, processed, w) \<Rightarrow> w
      | (LoopEnded, processed, w) \<Rightarrow>
          emit [Done (output_folder j)]
            (write_manifest e j (count_values_of j) processed w))"
  using assms by (simp add: run_def Let_def)

lemma loop_until:
  assumes "N \<le> length vals"
    and "\<forall>k<N. \<not> stop_seen e k"
    and "\<forall>k<N. render_raises e (vals ! k) = None \<and> save_raises e (path_of j (vals ! k)) = None"
  shows "values_loop e j n vals 0 w =
     values_loop e j n (drop N vals) N
       (w\<lparr>saved := saved w @ map (path_of j) (take N vals),
          emitted := emitted w @ progress_signals 0 n N\<rparr>)"
proof -
  have "\<forall>k < length (take N vals). \<not> stop_seen e (0 + k) \<and> render_raises e (take N vals ! k) = None
             \<and> save_raises e (path_of j (take N vals ! k)) = None"
    using assms by simp
  from values_loop_prefix[OF this, of n "drop N vals" w] assms(1)
  show ?thesis by (simp add: min_def)
qed

lemma job0_values: "count_values_of job0 = [1, 2, 3]"
  by (simp add: job0_def count_values_of_def)

lemma job0_paths:
  "path_of job0 1 = ''out/t_1.png''"
  "path_of job0 2 = ''out/t_2.png''"
  "path_of job0 3 = ''out/t_3.png''"
  by code_simp+

text \<open>
  C6, as claimed: a stop seen after \<open>N\<close> of \<open>M\<close> values leaves \<open>N\<close> files and a manifest
  of \<open>N\<close> rows, and ends in a state distinct from normal completion. With three values,
  a stop seen before the first leaves no manifest at all, and a run stopped after one
  value ends with the very signal \<open>done(output_folder)\<close> that the run of all three ends
  with.
\<close>

theorem cancelled_run_counterexample:
  "manifest (run (env_stop_at 0) job0) = None
   \<and> saved (run (env_stop_at 0) job0) = []
   \<and> last (emitted (run (env_stop_at 1) job0)) = Done ''out''
   \<and> last (emitted (run (env_stop_at 3) job0)) = Done ''out''
   \<and> saved (run (env_stop_at 1) job0) = [''out/t_1.png'']
   \<and> saved (run (env_stop_at 3) job0) = [''out/t_1.png'', ''out/t_2.png'', ''out/t_3.png'']"
  by code_simp


text \<open>
  C6, amended: when the stop flag is first seen set at the head of the iteration for the
  value of index \<open>N\<close> (\<open>N < M\<close>) and the \<open>N\<close> values before it were rendered and saved,
  the run has saved exactly the \<open>N\<close> files of those values, in order; it writes a
  manifest of \<open>N\<close> rows, one per value in render order, when \<open>N \<ge> 1\<close> and the report
  can be written, and none when \<open>N = 0\<close>; it logs the stop and then emits
  \<open>done(output_folder)\<close>, the signal a run that completes ends with. The flag is read
  at the loop head only: nothing else of it enters the result.
\<close>

theorem cancelled_run:
  assumes "background_is_file e" and "background_open_raises e = None"
    and "N < length (count_values_of j)"
    and "stop_seen e N" and "\<forall>k<N. \<not> stop_seen e k"
    and "\<forall>k<N. render_raises e (count_values_of j ! k) = None
           \<and> save_raises e (path_of j (count_values_of j ! k)) = None"
  shows "saved (run e j) = map (path_of j) (take N (count_values_of j))
     \<and> length (saved (run e j)) = N
     \<and> manifest (run e j) =
         (if N = 0 then None
          else case excel_raises e of
                 None \<Rightarrow> Some (map (manifest_row_of j) (take N (count_values_of j)))
               | Some x \<Rightarrow> None)
     \<and> emitted (run e j) =
         [Log LogTarget, StartEstimate (length (count_values_of j))]
         @ progress_signals 0 (length (count_values_of j)) N
         @ [Log LogStopRequested]
         @ (if N = 0 then []
            else case excel_raises e of
                   None \<Rightarrow> [Log (LogExcel (excel_path j))]
                 | Some x \<Rightarrow> [Log (LogExcelError x)])
         @ [Done (output_folder j)]
     \<and> last (emitted (run e j)) = Done (output_folder j)
     \<and> (\<forall>e'. background_is_file e' \<and> background_open_raises e' = None
            \<and> (\<forall>k < length (count_values_of j). \<not> stop_seen e' k
                  \<and> render_raises e' (count_values_of j ! k) = None
                  \<and> save_raises e' (path_of j (count_values_of j ! k)) = None)
          \<longrightarrow> last (emitted (run e' j)) = last (emitted (run e j)))"
proof -
  let ?vals = "count_values_of j"
  let ?M = "length ?vals"
  let ?w0 = "emit [Log LogTarget, StartEstimate ?M] world0"
  have ne: "drop N ?vals \<noteq> []" using assms(3) by simp
  have "values_loop e j ?M ?vals 0 ?w0 =
      values_loop e j ?M (drop N ?vals) N
       (?w0\<lparr>saved := saved ?w0 @ map (path_of j) (take N ?vals),
          emitted := emitted ?w0 @ progress_signals 0 ?M N\<rparr>)"
    using assms(3,5,6) by (intro loop_until) simp_all
  also have "\<dots> = (LoopEnded, N, emit [Log LogStopRequested]
       (?w0\<lparr>saved := saved ?w0 @ map (path_of j) (take N ?vals),
          emitted := emitted ?w0 @ progress_signals 0 ?M N\<rparr>))"
    using assms(4) ne by (rule values_loop_stop)
  finally have loop: "values_loop e j ?M ?vals 0 ?w0 = (LoopEnded, N, emit [Log LogStopRequested]
       (?w0\<lparr>saved := saved ?w0 @ map (path_of j) (take N ?vals),
          emitted := emitted ?w0 @ progress_signals 0 ?M N\<rparr>))" .
  have tk: "?vals \<noteq> []" using assms(3) by auto
  have r: "run e j = emit [Done (output_folder j)]
            (write_manifest e j ?vals N (emit [Log LogStopRequested]
       (?w0\<lparr>saved := saved ?w0 @ map (path_of j) (take N ?vals),
          emitted := emitted ?w0 @ progress_signals 0 ?M N\<rparr>)))"
    using run_started[OF assms(1,2), of j] loop by simp
  have a: "saved (run e j) = map (path_of j) (take N ?vals)"
    unfolding r by (simp add: emit_def write_manifest_def world0_def Let_def split: option.splits)
  have b: "manifest (run e j) =
         (if N = 0 then None
          else case excel_raises e of
                 None \<Rightarrow> Some (map (manifest_row_of j) (take N ?vals))
               | Some x \<Rightarrow> None)"
    unfolding r by (simp add: emit_def write_manifest_def world0_def Let_def tk split: option.splits)
  have c: "emitted (run e j) =
         [Log LogTarget, StartEstimate ?M] @ progress_signals 0 ?M N @ [Log LogStopRequested]
         @ (if N = 0 then []
            else case excel_raises e of
                   None \<Rightarrow> [Log (LogExcel (excel_path j))]
                 | Some x \<Rightarrow> [Log (LogExcelError x)])
         @ [Done (output_folder j)]"
    unfolding r by (simp add: emit_def write_manifest_def world0_def Let_def tk split: option.splits)
  have d: "last (emitted (run e j)) = Done (output_folder j)"
    unfolding c by simp
  have f: "last (emitted (run e' j)) = Done (output_folder j)"
    if e': "background_is_file e'" "background_open_raises e' = None"
      "\<forall>k < ?M. \<not> stop_seen e' k \<and> render_raises e' (?vals ! k) = None
                  \<and> save_raises e' (path_of j (?vals ! k)) = None" for e'
  proof -
    have "values_loop e' j ?M ?vals 0 ?w0 =
      values_loop e' j ?M (drop ?M ?vals) ?M
       (?w0\<lparr>saved := saved ?w0 @ map (path_of j) (take ?M ?vals),
          emitted := emitted ?w0 @ progress_signals 0 ?M ?M\<rparr>)"
      using e'(3) by (intro loop_until) simp_all
    then have "\<exists>w. values_loop e' j ?M ?vals 0 ?w0 = (LoopEnded, ?M, w)" by simp
    then obtain w where "values_loop e' j ?M ?vals 0 ?w0 = (LoopEnded, ?M, w)" ..
    then have "run e' j = emit [Done (output_folder j)] (write_manifest e' j ?vals ?M w)"
      using run_started[OF e'(1,2), of j] by simp
    then show ?thesis by (simp add: emit_def)
  qed
  from a b c d f show ?thesis using assms(3) by simp
qed


theorem cancelled_run_witness:
  "saved (run (env_stop_at 1) job0) = [''out/t_1.png'']
   \<and> length (saved (run (env_stop_at 1) job0)) = 1
   \<and> manifest (run (env_stop_at 1) job0) = Some [manifest_row_of job0 1]
   \<and> last (emitted (run (env_stop_at 1) job0)) = Done ''out''"
proof -
  have h1: "background_is_file (env_stop_at 1)" and h2: "background_open_raises (env_stop_at 1) = None"
    by (simp_all add: env_stop_at_def)
  have h3: "1 < length (count_values_of job0)" by (simp add: job0_values)
  have h4: "stop_seen (env_stop_at 1) 1" by (simp add: env_stop_at_def)
  have h5: "\<forall>k<1. \<not> stop_seen (env_stop_at 1) k" by (simp add: env_stop_at_def)
  have h6: "\<forall>k<1. render_raises (env_stop_at 1) (count_values_of job0 ! k) = None
           \<and> save_raises (env_stop_at 1) (path_of job0 (count_values_of job0 ! k)) = None"
    by (simp add: env_stop_at_def)
  have x: "excel_raises (env_stop_at n) = None" for n by (simp add: env_stop_at_def)
  have o: "output_folder job0 = ''out''" by (simp add: job0_def)
  from cancelled_run[OF h1 h2 h3 h4 h5 h6]
  show ?thesis by (simp add: job0_values job0_paths x o)
qed

text \<open>
  C10. When saving the value of index \<open>K\<close> fails (the values before it saved, no stop
  seen), \<open>run\<close> returns right after the error signal: no manifest is written, no done
  signal is emitted, and the files saved are those of the \<open>K\<close> values before. Both
  variants of \<open>run\<close> have this loop.
\<close>

theorem save_failure_run:
  assumes "background_is_file e" and "background_open_raises e = None"
    and "K < length (count_values_of j)"
    and "\<forall>k\<le>K. \<not> stop_seen e k \<and> render_raises e (count_values_of j ! k) = None"
    and "\<forall>k<K. save_raises e (path_of j (count_values_of j ! k)) = None"
    and "save_raises e (path_of j (count_values_of j ! K)) = Some x"
  shows "manifest (run e j) = None
     \<and> saved (run e j) = map (path_of j) (take K (count_values_of j))
     \<and> emitted (run e j) =
         [Log LogTarget, StartEstimate (length (count_values_of j))]
         @ progress_signals 0 (length (count_values_of j)) K
         @ [Log (LogSaveFailed (path_of j (count_values_of j ! K)) x), Error (SaveFailed x)]
     \<and> last (emitted (run e j)) = Error (SaveFailed x)
     \<and> (\<forall>f. Done f \<notin> set (emitted (run e j)))"
proof -
  let ?vals = "count_values_of j"
  let ?M = "length ?vals"
  let ?w0 = "emit [Log LogTarget, StartEstimate ?M] world0"
  let ?w1 = "?w0\<lparr>saved := saved ?w0 @ map (path_of j) (take K ?vals),
          emitted := emitted ?w0 @ progress_signals 0 ?M K\<rparr>"
  have dr: "drop K ?vals = ?vals ! K # drop (Suc K) ?vals"
    using assms(3) by (simp add: Cons_nth_drop_Suc)
  have "values_loop e j ?M ?vals 0 ?w0 = values_loop e j ?M (drop K ?vals) K ?w1"
    using assms(3,4,5) by (intro loop_until) simp_all
  also have "\<dots> = (Returned, K,
       emit [Log (LogSaveFailed (path_of j (?vals ! K)) x), Error (SaveFailed x)] ?w1)"
    unfolding dr using assms(4,6) by (intro values_loop_save_fails) simp_all
  finally have r: "run e j =
       emit [Log (LogSaveFailed (path_of j (?vals ! K)) x), Error (SaveFailed x)] ?w1"
    using run_started[OF assms(1,2), of j] by simp
  have a: "manifest (run e j) = None"
    unfolding r by (simp add: emit_def world0_def)
  have b: "saved (run e j) = map (path_of j) (take K ?vals)"
    unfolding r by (simp add: emit_def world0_def)
  have c: "emitted (run e j) =
         [Log LogTarget, StartEstimate ?M] @ progress_signals 0 ?M K
         @ [Log (LogSaveFailed (path_of j (?vals ! K)) x), Error (SaveFailed x)]"
    unfolding r by (simp add: emit_def world0_def)
  have d: "last (emitted (run e j)) = Error (SaveFailed x)" unfolding c by simp
  have f: "Done f \<notin> set (emitted (run e j))" for f
    unfolding c by (simp add: done_notin_progress)
  from a b c d f show ?thesis by simp
qed

theorem save_failure_run_witness:
  "manifest (run (env_save_fails_at ''out/t_2.png'') job0) = None
   \<and> saved (run (env_save_fails_at ''out/t_2.png'') job0) = [''out/t_1.png'']
   \<and> last (emitted (run (env_save_fails_at ''out/t_2.png'') job0)) = Error (SaveFailed ''disk full'')"
proof -
  let ?e = "env_save_fails_at ''out/t_2.png''"
  have h1: "background_is_file ?e" and h2: "background_open_raises ?e = None"
    by (simp_all add: env_save_fails_at_def)
  have h3: "1 < length (count_values_of job0)" by (simp add: job0_values)
  have h4: "\<forall>k\<le>1. \<not> stop_seen ?e k \<and> render_raises ?e (count_values_of job0 ! k) = None"
    by (simp add: env_save_fails_at_def)
  have h5: "\<forall>k<1. save_raises ?e (path_of job0 (count_values_of job0 ! k)) = None"
    by (simp add: env_save_fails_at_def job0_values job0_paths)
  have h6: "save_raises ?e (path_of job0 (count_values_of job0 ! 1)) = Some ''disk full''"
    by (simp add: env_save_fails_at_def job0_values job0_paths)
  from save_failure_run[OF h1 h2 h3 h4 h5 h6]
  show ?thesis by (simp add: job0_values job0_paths)
qed

end
